theory Spec2Isabelle
  imports Main "HOL-Library.Sublist"
begin

section \<open>YT2CUE: a shallow embedding of \<^verbatim>\<open>youtube_to_cue.py\<close>\<close>

text \<open>
  The development follows class \<^verbatim>\<open>CueGenerator\<close> of \<^verbatim>\<open>src/youtube_to_cue.py\<close>.
  A Python \<^verbatim>\<open>str\<close> is a list of code points; here it is a \<open>string\<close>, one \<open>char\<close> per code
  point, which covers the code points below 256. In that range the interpreter's character
  predicates are the ones written out below. Python integers are unbounded: \<open>int\<close>.
\<close>

subsection \<open>Character classes and string built-ins of the interpreter\<close>

text \<open>
  \<^verbatim>\<open>str.isspace\<close>, which \<^verbatim>\<open>str.strip()\<close> and the pattern \<^verbatim>\<open>\s\<close> use: TAB, LF, VT, FF, CR, FS,
  GS, RS, US, SPACE, NEL (0x85) and NBSP (0xA0).
\<close>

definition whitespace :: string where
  "whitespace = [CHR 0x09, CHR 0x0A, CHR 0x0B, CHR 0x0C, CHR 0x0D, CHR 0x1C, CHR 0x1D,
                 CHR 0x1E, CHR 0x1F, CHR 0x20, CHR 0x85, CHR 0xA0]"

definition is_space :: "char \<Rightarrow> bool" where
  "is_space c = (c \<in> set whitespace)"

text \<open>The decimal digits (\<^verbatim>\<open>\d\<close>, and the digits \<^verbatim>\<open>int()\<close> accepts).\<close>

definition is_digit :: "char \<Rightarrow> bool" where
  "is_digit c = (c \<in> set ''0123456789'')"

definition digit_value :: "char \<Rightarrow> nat" where
  "digit_value c = of_char c - 48"

text \<open>\<^verbatim>\<open>s.strip()\<close>: leading and trailing whitespace removed.\<close>

definition py_strip :: "string \<Rightarrow> string" where
  "py_strip s = rev (dropWhile is_space (rev (dropWhile is_space s)))"

text \<open>
  \<^verbatim>\<open>s.split(sep)\<close> for a one-character separator: the pieces between the separators; there
  is always at least one piece (\<^verbatim>\<open>''.split(':') == ['']\<close>).
\<close>

fun py_split :: "char \<Rightarrow> string \<Rightarrow> string list" where
  "py_split sep [] = [[]]"
| "py_split sep (c # cs) =
     (if c = sep then [] # py_split sep cs
      else (case py_split sep cs of [] \<Rightarrow> [[c]] | p # ps \<Rightarrow> (c # p) # ps))"

text \<open>
  \<^verbatim>\<open>int(s)\<close> in base 10. What it ignores around the number is not \<^verbatim>\<open>str.isspace\<close>: the
  separators FS, GS, RS and US (0x1C to 0x1F) are not skipped, so \<^verbatim>\<open>int('1\x1f')\<close> raises
  although \<^verbatim>\<open>'1\x1f'.strip()\<close> is \<^verbatim>\<open>'1'\<close>. Skipped are TAB, LF, VT, FF, CR and SPACE, and NEL
  and NBSP, which \<^verbatim>\<open>int\<close> first turns into spaces.
\<close>

definition int_whitespace :: string where
  "int_whitespace = [CHR 0x09, CHR 0x0A, CHR 0x0B, CHR 0x0C, CHR 0x0D, CHR 0x20, CHR 0x85,
                     CHR 0xA0]"

definition is_int_space :: "char \<Rightarrow> bool" where
  "is_int_space c = (c \<in> set int_whitespace)"

definition int_strip :: "string \<Rightarrow> string" where
  "int_strip s = rev (dropWhile is_int_space (rev (dropWhile is_int_space s)))"

text \<open>
  The interpreter refuses to convert a text with more decimal digits than its limit, which
  is 4300 unless the interpreter is started with another one
  (\<^verbatim>\<open>sys.int_info.default_max_str_digits\<close>). Underscores do not count, leading zeros do.
\<close>

definition max_str_digits :: nat where
  "max_str_digits = 4300"

text \<open>
  After the ignored whitespace come an optional sign and then decimal digits in which
  single underscores may separate digits. \<open>None\<close> stands for the \<^verbatim>\<open>ValueError\<close> that \<^verbatim>\<open>int\<close>
  raises, for a text of another shape as well as for one with too many digits.
\<close>

fun digits_from :: "nat \<Rightarrow> string \<Rightarrow> nat option" where
  "digits_from acc [] = Some acc"
| "digits_from acc (c # cs) =
     (if is_digit c then digits_from (10 * acc + digit_value c) cs
      else if c = CHR ''_'' then
        (case cs of
           [] \<Rightarrow> None
         | d # ds \<Rightarrow> if is_digit d then digits_from (10 * acc + digit_value d) ds else None)
      else None)"

definition dec_literal :: "string \<Rightarrow> nat option" where
  "dec_literal s =
     (case s of
        [] \<Rightarrow> None
      | c # cs \<Rightarrow>
          if is_digit c then
            (if max_str_digits < length (filter is_digit s) then None
             else digits_from (digit_value c) cs)
          else None)"

definition py_int :: "string \<Rightarrow> int option" where
  "py_int s =
     (case int_strip s of
        [] \<Rightarrow> None
      | c # cs \<Rightarrow>
          if c = CHR ''-'' then map_option (\<lambda>n. - int n) (dec_literal cs)
          else if c = CHR ''+'' then map_option int (dec_literal cs)
          else map_option int (dec_literal (c # cs)))"

text \<open>
  The shape of the texts that \<^verbatim>\<open>int\<close> accepts in base 10, stated on its own and not through
  \<open>py_int\<close>, with which lemma \<open>py_int_None_iff\<close> compares it. The digits: the text starts with
  a digit, every character is a digit or an underscore that has a digit right after it
  (so no underscore is first, last or next to another one), and there are no more digits
  than the limit. The whole text: such digits after an optional sign, with nothing but
  the whitespace that \<^verbatim>\<open>int\<close> ignores before the sign and after the last digit.
\<close>

definition underscores_ok :: "string \<Rightarrow> bool" where
  "underscores_ok b =
     list_all (\<lambda>i. is_digit (b ! i)
                 \<or> (b ! i = CHR ''_'' \<and> Suc i < length b \<and> is_digit (b ! Suc i)))
       [0..<length b]"

definition int_body :: "string \<Rightarrow> bool" where
  "int_body b = (b \<noteq> [] \<and> is_digit (hd b) \<and> underscores_ok b
                 \<and> length (filter is_digit b) \<le> max_str_digits)"

definition int_literal :: "string \<Rightarrow> bool" where
  "int_literal p =
     (\<exists>pre sign body post.
        p = pre @ sign @ body @ post \<and> list_all is_int_space pre \<and> list_all is_int_space post
        \<and> (sign = [] \<or> sign = ''+'' \<or> sign = ''-'') \<and> int_body body)"

subsection \<open>The object\<close>

text \<open>One entry of \<^verbatim>\<open>self.tracks\<close>: the dict built in \<^verbatim>\<open>read_timestamps_file\<close>.\<close>

record track =
  title :: string
  minutes :: int
  seconds :: int
  frames :: int

text \<open>The attributes set by \<^verbatim>\<open>__init__\<close>.\<close>

record CueGenerator =
  album :: string
  artist :: string
  year :: string
  genre :: string
  audio_file :: string
  tracks :: "track list"

definition init :: CueGenerator where
  "init = \<lparr>album = '''', artist = '''', year = '''', genre = '''', audio_file = '''',
           tracks = []\<rparr>"

subsection \<open>\<^verbatim>\<open>parse_timestamp\<close>\<close>

text \<open>
  Both failures of \<^verbatim>\<open>parse_timestamp\<close> are Python \<^verbatim>\<open>ValueError\<close>s: the one it raises itself,
  \<^verbatim>\<open>ValueError(f"Invalid timestamp format: {timestamp}")\<close>, carrying the stripped token, and the
  one raised by \<^verbatim>\<open>int(part)\<close>, carrying the rejected part (its message text is the
  interpreter's).
\<close>

datatype value_error = InvalidFormat string | InvalidLiteral string

definition int_of :: "string \<Rightarrow> value_error + int" where
  "int_of part = (case py_int part of None \<Rightarrow> Inl (InvalidLiteral part) | Some n \<Rightarrow> Inr n)"

definition parse_timestamp :: "CueGenerator \<Rightarrow> string \<Rightarrow> value_error + (int \<times> int \<times> int)" where
  "parse_timestamp self timestamp0 =
     (let timestamp = py_strip timestamp0;
          parts = py_split CHR '':'' timestamp
      in case parts of
           [p0, p1] \<Rightarrow>
             (case int_of p0 of
                Inl e \<Rightarrow> Inl e
              | Inr mins \<Rightarrow>
                  (case int_of p1 of
                     Inl e \<Rightarrow> Inl e
                   | Inr secs \<Rightarrow> Inr (mins, secs, 0)))
         | [p0, p1, p2] \<Rightarrow>
             (case int_of p0 of
                Inl e \<Rightarrow> Inl e
              | Inr hours \<Rightarrow>
                  (case int_of p1 of
                     Inl e \<Rightarrow> Inl e
                   | Inr mins \<Rightarrow>
                       (case int_of p2 of
                          Inl e \<Rightarrow> Inl e
                        | Inr secs \<Rightarrow> Inr (mins + hours * 60, secs, 0))))
         | _ \<Rightarrow> Inl (InvalidFormat timestamp))"

subsection \<open>The fragment of \<^verbatim>\<open>re\<close> that the patterns use\<close>

text \<open>
  Character classes: \<^verbatim>\<open>\d\<close>, \<^verbatim>\<open>\s\<close>, \<^verbatim>\<open>.\<close> (any character but a newline, as no flag is
  given), a literal character, and a bracketed set.
\<close>

datatype cls = Digit | Space | AnyChar | Lit char | OneOf string

fun cls_match :: "cls \<Rightarrow> char \<Rightarrow> bool" where
  "cls_match Digit c = is_digit c"
| "cls_match Space c = is_space c"
| "cls_match AnyChar c = (c \<noteq> CHR 0x0A)"
| "cls_match (Lit x) c = (c = x)"
| "cls_match (OneOf xs) c = (c \<in> set xs)"

text \<open>
  Patterns. \<open>Rep greedy k lo hi\<close> repeats one character class between \<open>lo\<close> and \<open>hi\<close> times
  (\<open>None\<close>: unbounded), trying the longest run first when greedy and the shortest first
  when lazy: \<^verbatim>\<open>\d{1,2}\<close>, \<^verbatim>\<open>\d{2}\<close>, \<^verbatim>\<open>\s+\<close>, \<^verbatim>\<open>\s*\<close>, \<^verbatim>\<open>.+\<close>, \<^verbatim>\<open>.+?\<close>. \<open>Opt r\<close> is the greedy
  \<^verbatim>\<open>r?\<close> (also \<^verbatim>\<open>(?:r)?\<close>), \<open>Grp r\<close> a capturing group, \<open>Eol\<close> is \<^verbatim>\<open>$\<close>, which without
  \<^verbatim>\<open>re.MULTILINE\<close> holds at the end of the text and just before a newline that ends it.
  Every pattern of the source quantifies single character classes only, apart from \<^verbatim>\<open>?\<close>.
\<close>

datatype re =
    Eps
  | Chr cls
  | Rep bool cls nat "nat option"
  | Opt re
  | Seq re re
  | Grp re
  | Eol

definition run_length :: "cls \<Rightarrow> string \<Rightarrow> nat" where
  "run_length k s = length (takeWhile (cls_match k) s)"

definition rep_counts :: "bool \<Rightarrow> nat \<Rightarrow> nat option \<Rightarrow> nat \<Rightarrow> nat list" where
  "rep_counts greedy lo hi n =
     (let m = (case hi of None \<Rightarrow> n | Some h \<Rightarrow> min h n)
      in if greedy then rev [lo..<Suc m] else [lo..<Suc m])"

text \<open>
  The backtracking search of the engine, as the list of all its successes in the order in
  which it finds them: each success is the texts of the groups closed so far, in the order
  of their opening parentheses, and the text still unread.
\<close>

primrec rmatch :: "re \<Rightarrow> string \<Rightarrow> (string list \<times> string) list" where
  "rmatch Eps = (\<lambda>s. [([], s)])"
| "rmatch (Chr k) =
     (\<lambda>s. case s of [] \<Rightarrow> [] | c # cs \<Rightarrow> if cls_match k c then [([], cs)] else [])"
| "rmatch (Rep greedy k lo hi) =
     (\<lambda>s. map (\<lambda>n. ([], drop n s)) (rep_counts greedy lo hi (run_length k s)))"
| "rmatch (Opt r) = (\<lambda>s. rmatch r s @ [([], s)])"
| "rmatch (Seq a b) =
     (\<lambda>s. concat (map (\<lambda>(ca, r). map (\<lambda>(cb, r'). (ca @ cb, r')) (rmatch b r)) (rmatch a s)))"
| "rmatch (Grp r) =
     (\<lambda>s. map (\<lambda>(c, r'). (take (length s - length r') s # c, r')) (rmatch r s))"
| "rmatch Eol = (\<lambda>s. if s = [] \<or> s = [CHR 0x0A] then [([], s)] else [])"

definition cat :: "re list \<Rightarrow> re" where
  "cat rs = foldr Seq rs Eps"

text \<open>
  Every pattern of the source begins with \<^verbatim>\<open>^\<close> and is used without \<^verbatim>\<open>re.MULTILINE\<close>, so it
  can match at offset 0 only; the patterns below are what follows the \<^verbatim>\<open>^\<close>, matched from
  the start of the text. \<^verbatim>\<open>re.match(p, s)\<close> is the first success, and \<^verbatim>\<open>match.groups()\<close> its
  group texts.
\<close>

definition re_match :: "re \<Rightarrow> string \<Rightarrow> string list option" where
  "re_match p s = (case rmatch p s of [] \<Rightarrow> None | (g, rest) # _ \<Rightarrow> Some g)"

text \<open>
  \<^verbatim>\<open>re.sub(p, '', s)\<close> for such an anchored pattern \<open>p\<close> that matches no empty text: the one
  possible match, at offset 0, is removed.
\<close>

definition re_sub_empty :: "re \<Rightarrow> string \<Rightarrow> string" where
  "re_sub_empty p s = (case rmatch p s of [] \<Rightarrow> s | (g, rest) # _ \<Rightarrow> rest)"

subsection \<open>\<^verbatim>\<open>parse_timestamp_line\<close>\<close>

text \<open>\<^verbatim>\<open>r'^[\d]+\.\s*'\<close>\<close>

definition list_prefix :: re where
  "list_prefix = cat [Rep True Digit 1 None, Chr (Lit CHR ''.''), Rep True Space 0 None]"

text \<open>\<^verbatim>\<open>\d{1,2}:\d{2}(?::\d{2})?\<close>, the part that the three patterns share.\<close>

definition token :: re where
  "token = cat [Rep True Digit 1 (Some 2), Chr (Lit CHR '':''), Rep True Digit 2 (Some 2),
                Opt (cat [Chr (Lit CHR '':''), Rep True Digit 2 (Some 2)])]"

text \<open>\<^verbatim>\<open>r'^[\[\(]?(\d{1,2}:\d{2}(?::\d{2})?)[\]\)]?\s+(.+)$'\<close>\<close>

definition pattern_a :: re where
  "pattern_a = cat [Opt (Chr (OneOf ''[('')), Grp token, Opt (Chr (OneOf ''])'')),
                    Rep True Space 1 None, Grp (Rep True AnyChar 1 None), Eol]"

text \<open>\<^verbatim>\<open>r'^(\d{1,2}:\d{2}(?::\d{2})?)\s+(.+)$'\<close>\<close>

definition pattern_b :: re where
  "pattern_b = cat [Grp token, Rep True Space 1 None, Grp (Rep True AnyChar 1 None), Eol]"

text \<open>\<^verbatim>\<open>r'^(.+?)\s+[\[\(]?(\d{1,2}:\d{2}(?::\d{2})?)[\]\)]?$'\<close>\<close>

definition pattern_c :: re where
  "pattern_c = cat [Grp (Rep False AnyChar 1 None), Rep True Space 1 None,
                    Opt (Chr (OneOf ''[('')), Grp token, Opt (Chr (OneOf ''])'')), Eol]"

definition patterns :: "re list" where
  "patterns = [pattern_a, pattern_b, pattern_c]"

text \<open>The dict that \<^verbatim>\<open>parse_timestamp_line\<close> returns; \<open>None\<close> is Python's \<^verbatim>\<open>None\<close>.\<close>

record parsed =
  timestamp :: string
  title :: string

text \<open>
  The body of the \<^verbatim>\<open>for pattern in patterns\<close> loop once \<^verbatim>\<open>match\<close> is not \<^verbatim>\<open>None\<close>. Each of the
  three patterns has exactly two groups and both take part in every match (lemma
  \<open>patterns_two_groups\<close>), so \<^verbatim>\<open>g[0]\<close> and \<^verbatim>\<open>g[1]\<close> exist and the last case is never taken.
\<close>

definition assign_groups :: "string list \<Rightarrow> parsed option" where
  "assign_groups g =
     (case g of
        [g0, g1] \<Rightarrow>
          if CHR '':'' \<in> set g0
          then Some \<lparr>timestamp = py_strip g0, title = py_strip g1\<rparr>
          else Some \<lparr>timestamp = py_strip g1, title = py_strip g0\<rparr>
      | _ \<Rightarrow> None)"

fun first_match :: "re list \<Rightarrow> string \<Rightarrow> parsed option" where
  "first_match [] line = None"
| "first_match (pattern # ps) line =
     (case re_match pattern line of
        Some g \<Rightarrow> assign_groups g
      | None \<Rightarrow> first_match ps line)"

definition parse_timestamp_line :: "CueGenerator \<Rightarrow> string \<Rightarrow> parsed option" where
  "parse_timestamp_line self line0 =
     (let line = py_strip line0
      in if line = [] then None
         else first_match patterns (re_sub_empty list_prefix line))"

text \<open>
  The extractor with pattern (b) left out of the list, everything else as in
  \<^verbatim>\<open>parse_timestamp_line\<close>: the function to which the claim that (b) is redundant compares
  the source's.
\<close>

definition parse_timestamp_line_without_b :: "CueGenerator \<Rightarrow> string \<Rightarrow> parsed option" where
  "parse_timestamp_line_without_b self line0 =
     (let line = py_strip line0
      in if line = [] then None
         else first_match [pattern_a, pattern_c] (re_sub_empty list_prefix line))"

text \<open>
  A text has the shape of a timestamp somewhere when the common part \<^verbatim>\<open>\d{1,2}:\d{2}(?::\d{2})?\<close>
  of the patterns matches at one of its offsets.
\<close>

definition timestamp_shaped :: "string \<Rightarrow> bool" where
  "timestamp_shaped s = list_ex (\<lambda>i. rmatch token (drop i s) \<noteq> []) [0..<Suc (length s)]"

subsection \<open>\<^verbatim>\<open>read_timestamps_file\<close>\<close>

text \<open>
  What \<^verbatim>\<open>open(filepath, 'r', encoding='utf-8')\<close> followed by \<^verbatim>\<open>f.readlines()\<close> does is given
  from outside: it raises an exception or returns the lines. Exceptions are a class and a
  message (\<^verbatim>\<open>str(e)\<close>); \<open>OtherException\<close> is any further subclass of \<^verbatim>\<open>Exception\<close>, such as
  \<^verbatim>\<open>PermissionError\<close> or \<^verbatim>\<open>UnicodeDecodeError\<close>.
\<close>

datatype exn =
    FileNotFoundError string
  | ValueError string
  | OtherException string
  | Exception string

fun str_exn :: "exn \<Rightarrow> string" where
  "str_exn (FileNotFoundError m) = m"
| "str_exn (ValueError m) = m"
| "str_exn (OtherException m) = m"
| "str_exn (Exception m) = m"

datatype read_outcome = Raises exn | Lines "string list"

text \<open>\<^verbatim>\<open>print(f"Warning: Skipping line {line_num} - {e}")\<close>: the line number and the error.\<close>

datatype warning = Skipping nat value_error

text \<open>
  One round of \<^verbatim>\<open>for line_num, line in enumerate(lines, 1)\<close>, on the local list \<^verbatim>\<open>tracks\<close> and
  the text printed so far.
\<close>

definition process_line ::
  "CueGenerator \<Rightarrow> track list \<times> warning list \<Rightarrow> nat \<times> string \<Rightarrow> track list \<times> warning list" where
  "process_line self acc item =
     (case acc of (tracks_v, printed) \<Rightarrow>
      case item of (line_num, line) \<Rightarrow>
        (case parse_timestamp_line self line of
           None \<Rightarrow> (tracks_v, printed)
         | Some p \<Rightarrow>
             (case parse_timestamp self (timestamp p) of
                Inr (mins, secs, frames_v) \<Rightarrow>
                  (tracks_v @ [\<lparr>track.title = parsed.title p, minutes = mins, seconds = secs,
                                 frames = frames_v\<rparr>], printed)
              | Inl e \<Rightarrow> (tracks_v, printed @ [Skipping line_num e]))))"

definition read_loop :: "CueGenerator \<Rightarrow> string list \<Rightarrow> track list \<times> warning list" where
  "read_loop self lines = foldl (process_line self) ([], []) (enumerate 1 lines)"

text \<open>
  The body of the \<^verbatim>\<open>try\<close>: the exception it raises, or the value it returns with the object
  as it then is; in both cases with what it has printed.
\<close>

definition try_body ::
  "CueGenerator \<Rightarrow> read_outcome \<Rightarrow> (exn + nat) \<times> CueGenerator \<times> warning list" where
  "try_body self outcome =
     (case outcome of
        Raises e \<Rightarrow> (Inl e, self, [])
      | Lines lines \<Rightarrow>
          (case read_loop self lines of (tracks_v, printed) \<Rightarrow>
             if tracks_v = []
             then (Inl (ValueError ''No valid timestamps found in file''), self, printed)
             else (Inr (length tracks_v), self\<lparr>tracks := tracks_v\<rparr>, printed)))"

text \<open>The two \<^verbatim>\<open>except\<close> clauses, in their order.\<close>

definition handlers :: "string \<Rightarrow> exn \<Rightarrow> exn" where
  "handlers filepath e =
     (case e of
        FileNotFoundError m \<Rightarrow> FileNotFoundError (''File not found: '' @ filepath)
      | _ \<Rightarrow> Exception (''Error reading file: '' @ str_exn e))"

definition read_timestamps_file ::
  "CueGenerator \<Rightarrow> string \<Rightarrow> read_outcome \<Rightarrow> (exn + nat) \<times> CueGenerator \<times> warning list" where
  "read_timestamps_file self filepath outcome =
     (case try_body self outcome of
        (Inl e, self', printed) \<Rightarrow> (Inl (handlers filepath e), self', printed)
      | (Inr n, self', printed) \<Rightarrow> (Inr n, self', printed))"

subsection \<open>\<^verbatim>\<open>generate_cue_content\<close>\<close>

text \<open>\<^verbatim>\<open>str(n)\<close> and the format \<^verbatim>\<open>{n:02d}\<close> of an integer.\<close>

definition digit_char :: "nat \<Rightarrow> char" where
  "digit_char n = char_of (48 + n)"

fun str_nat :: "nat \<Rightarrow> string" where
  "str_nat n = (if n < 10 then [digit_char n] else str_nat (n div 10) @ [digit_char (n mod 10)])"

definition str_int :: "int \<Rightarrow> string" where
  "str_int i = (if i < 0 then CHR ''-'' # str_nat (nat (- i)) else str_nat (nat i))"

text \<open>
  Width 2 with zero fill: zeros go between the sign and the digits until the text has two
  characters. A negative number has its sign and a digit already, so only 0 to 9 are padded.
\<close>

definition format_02d :: "int \<Rightarrow> string" where
  "format_02d i = (let s = str_int i in replicate (2 - length s) CHR ''0'' @ s)"







subsection \<open>Auxiliary notions for the proofs\<close>

text \<open>
  Two parts of the patterns that the proofs name: what follows the first colon of the
  timestamp part, \<^verbatim>\<open>\d{2}(?::\d{2})?\<close>, and the common end \<^verbatim>\<open>\s+(.+)$\<close> of patterns (a) and (b).
\<close>

definition token_tail :: re where
  "token_tail = Seq (Rep True Digit 2 (Some 2))
     (Seq (Opt (Seq (Chr (Lit CHR '':'')) (Seq (Rep True Digit 2 (Some 2)) Eps))) Eps)"

definition title_rest :: re where
  "title_rest = Seq (Rep True Space (Suc 0) None)
     (Seq (Grp (Rep True AnyChar (Suc 0) None)) (Seq Eol Eps))"

text \<open>
  The number of capturing groups of a pattern, and the patterns in which no group sits
  under a \<^verbatim>\<open>?\<close>, so that every group takes part in every match.
\<close>

fun ngroups :: "re \<Rightarrow> nat" where
  "ngroups (Opt r) = ngroups r"
| "ngroups (Seq a b) = ngroups a + ngroups b"
| "ngroups (Grp r) = Suc (ngroups r)"
| "ngroups _ = 0"

fun groups_mandatory :: "re \<Rightarrow> bool" where
  "groups_mandatory (Opt r) = (ngroups r = 0 \<and> groups_mandatory r)"
| "groups_mandatory (Seq a b) = (groups_mandatory a \<and> groups_mandatory b)"
| "groups_mandatory (Grp r) = groups_mandatory r"
| "groups_mandatory _ = True"

section \<open>Properties\<close>

subsection \<open>Character classes\<close>

lemma colon_not_digit: "\<not> is_digit CHR '':''"
  by (simp add: is_digit_def)

lemma colon_not_space: "\<not> is_space CHR '':''"
  by (simp add: is_space_def whitespace_def)

lemma space_not_bracket: "is_space c \<Longrightarrow> c \<notin> set ''])''"
  by (auto simp: is_space_def whitespace_def)

lemma digit_not_bracket: "is_digit c \<Longrightarrow> c \<notin> set ''[(''"
  by (auto simp: is_digit_def)

subsection \<open>The matcher\<close>

lemma rep_counts_1_2:
  "rep_counts True (Suc 0) (Some 2) n = (if 2 \<le> n then [2, 1] else if n = 1 then [1] else [])"
  by (auto simp: rep_counts_def Let_def min_def upt_rec[of 1] upt_rec[of 2]
        upt_rec[of "Suc 0"] numeral_2_eq_2)

lemma rep_counts_2_2: "rep_counts True 2 (Some 2) n = (if 2 \<le> n then [2] else [])"
  by (auto simp: rep_counts_def Let_def min_def upt_rec[of 2] numeral_2_eq_2)

lemma rep_counts_zero: "rep_counts g (Suc 0) hi 0 = []"
  by (simp add: rep_counts_def Let_def split: option.splits)

lemma run_length_Nil: "run_length k [] = 0"
  by (simp add: run_length_def)

lemma run_length_Cons:
  "run_length k (c # cs) = (if cls_match k c then Suc (run_length k cs) else 0)"
  by (simp add: run_length_def)

text \<open>What is left unread is an end of the text.\<close>

lemma rmatch_suffix: "(c, r) \<in> set (rmatch p s) \<Longrightarrow> suffix r s"
proof (induction p arbitrary: s c r)
  case (Seq a b)
  then obtain ca r1 cb where "(ca, r1) \<in> set (rmatch a s)" "(cb, r) \<in> set (rmatch b r1)"
    by auto
  then show ?case using Seq.IH suffix_order.trans by blast
qed (auto simp: suffix_drop suffix_ConsI split: list.splits if_splits)

text \<open>Every success carries one text per group.\<close>

lemma rmatch_ngroups:
  "groups_mandatory p \<Longrightarrow> (c, r) \<in> set (rmatch p s) \<Longrightarrow> length c = ngroups p"
proof (induction p arbitrary: s c r)
  case (Seq a b)
  then obtain ca r1 cb
    where "(ca, r1) \<in> set (rmatch a s)" "(cb, r) \<in> set (rmatch b r1)" "c = ca @ cb"
    by auto
  then show ?case using Seq by simp
next
  case (Opt p)
  then show ?case by auto
next
  case (Grp p)
  then show ?case by auto
qed (auto split: list.splits if_splits)

lemma patterns_two_groups:
  assumes "p \<in> set patterns" "re_match p s = Some g"
  shows "length g = 2"
proof -
  from assms(2) obtain r where "(g, r) \<in> set (rmatch p s)"
    by (auto simp: re_match_def split: list.splits)
  moreover have "groups_mandatory p" "ngroups p = 2"
    using assms(1)
    by (auto simp: patterns_def pattern_a_def pattern_b_def pattern_c_def token_def cat_def)
  ultimately show ?thesis using rmatch_ngroups by fastforce
qed

lemma seq_later: "rmatch (Seq a b) s \<noteq> [] \<Longrightarrow> \<exists>r. suffix r s \<and> rmatch b r \<noteq> []"
proof -
  assume "rmatch (Seq a b) s \<noteq> []"
  then obtain c r where "(c, r) \<in> set (rmatch (Seq a b) s)"
    by (metis list.set_intros(1) neq_Nil_conv surj_pair)
  then obtain ca r1 cb where "(ca, r1) \<in> set (rmatch a s)" "(cb, r) \<in> set (rmatch b r1)"
    by auto
  then show ?thesis using rmatch_suffix by fastforce
qed

lemma sub_suffix: "suffix (re_sub_empty p s) s"
proof (cases "rmatch p s")
  case Nil
  then show ?thesis by (simp add: re_sub_empty_def)
next
  case (Cons m ms)
  obtain g r where m: "m = (g, r)" by (cases m)
  with Cons have "(g, r) \<in> set (rmatch p s)" by simp
  then have "suffix r s" by (rule rmatch_suffix)
  then show ?thesis using Cons m by (simp add: re_sub_empty_def)
qed

subsection \<open>The timestamp part of the patterns\<close>

lemma token_split:
  "token = Seq (Rep True Digit (Suc 0) (Some 2)) (Seq (Chr (Lit CHR '':'')) token_tail)"
  by (simp add: token_def cat_def token_tail_def)

lemma token_tail_shape:
  "rmatch token_tail r = [] \<or> (\<exists>x. rmatch token_tail r = [([], x)])
     \<or> (\<exists>x y. rmatch token_tail r = [([], x), ([], CHR '':'' # y)])"
  unfolding token_tail_def
  by (auto simp: rep_counts_2_2 split: list.splits)

text \<open>
  The timestamp part succeeds in at most two ways, and the second way, the one without
  the seconds of an \<^verbatim>\<open>H:MM:SS\<close>, leaves a colon as the next character.
\<close>

lemma token_shape:
  "rmatch token s = [] \<or> (\<exists>x. rmatch token s = [([], x)])
     \<or> (\<exists>x y. rmatch token s = [([], x), ([], CHR '':'' # y)])"
proof (cases s)
  case Nil
  then show ?thesis by (simp add: token_split rep_counts_1_2 run_length_Nil)
next
  case s: (Cons a s1)
  show ?thesis
  proof (cases s1)
    case Nil
    then show ?thesis
      using s by (simp add: token_split rep_counts_1_2 run_length_Nil run_length_Cons)
  next
    case (Cons b s2)
    then show ?thesis
      using s token_tail_shape[of s2] token_tail_shape[of "tl s2"]
      by (cases s2)
         (auto simp add: token_split rep_counts_1_2 run_length_Nil run_length_Cons
            colon_not_digit)
  qed
qed

lemma token_digit: "rmatch token s \<noteq> [] \<Longrightarrow> \<exists>a s'. s = a # s' \<and> is_digit a"
  by (cases s)
     (auto simp: token_def cat_def run_length_Nil run_length_Cons rep_counts_zero
        split: if_splits)

lemma token_tail_iff:
  "rmatch token_tail s \<noteq> [] \<longleftrightarrow> (\<exists>c d r. is_digit c \<and> is_digit d \<and> s = c # d # r)"
  unfolding token_tail_def
  by (cases s; cases "tl s") (auto simp: rep_counts_2_2 run_length_Nil run_length_Cons)

lemma token_one: "is_digit a \<Longrightarrow> rmatch token (a # CHR '':'' # s) = rmatch token_tail s"
  by (simp add: token_split rep_counts_1_2 run_length_Cons colon_not_digit)

lemma token_two:
  "is_digit a \<Longrightarrow> is_digit b \<Longrightarrow> rmatch token (a # b # CHR '':'' # s) = rmatch token_tail s"
  using colon_not_digit by (auto simp add: token_split rep_counts_1_2 run_length_Cons)

lemma token_none:
  assumes "\<not> (\<exists>a r. is_digit a \<and>
              (s = a # CHR '':'' # r \<or> (\<exists>b. is_digit b \<and> s = a # b # CHR '':'' # r)))"
  shows "rmatch token s = []"
proof (cases s)
  case Nil
  then show ?thesis by (simp add: token_split rep_counts_1_2 run_length_Nil)
next
  case s: (Cons a s1)
  show ?thesis
  proof (cases s1)
    case Nil
    then show ?thesis
      using s by (simp add: token_split rep_counts_1_2 run_length_Nil run_length_Cons)
  next
    case s1: (Cons b s2)
    show ?thesis
    proof (cases s2)
      case Nil
      then show ?thesis
        using s s1 assms
        by (auto simp add: token_split rep_counts_1_2 run_length_Nil run_length_Cons)
    next
      case (Cons c s3)
      then show ?thesis
        using s s1 assms
        by (auto simp add: token_split rep_counts_1_2 run_length_Nil run_length_Cons)
    qed
  qed
qed

lemma token_tail_append: "rmatch token_tail s \<noteq> [] \<Longrightarrow> rmatch token_tail (s @ t) \<noteq> []"
  unfolding token_tail_iff by auto

lemma token_append:
  assumes "rmatch token s \<noteq> []"
  shows "rmatch token (s @ t) \<noteq> []"
proof -
  from assms obtain a r where a: "is_digit a"
    and s: "s = a # CHR '':'' # r \<or> (\<exists>b. is_digit b \<and> s = a # b # CHR '':'' # r)"
    using token_none[of s] by blast
  from s show ?thesis
  proof
    assume "s = a # CHR '':'' # r"
    then show ?thesis using assms a token_tail_append[of r t] by (simp add: token_one)
  next
    assume "\<exists>b. is_digit b \<and> s = a # b # CHR '':'' # r"
    then obtain b where "is_digit b" "s = a # b # CHR '':'' # r" by blast
    then show ?thesis using assms a token_tail_append[of r t] by (simp add: token_two)
  qed
qed

subsection \<open>Texts with and without the shape of a timestamp\<close>

lemma timestamp_shaped_iff:
  "timestamp_shaped s \<longleftrightarrow> (\<exists>r. suffix r s \<and> rmatch token r \<noteq> [])"
proof
  assume "timestamp_shaped s"
  then obtain i where "rmatch token (drop i s) \<noteq> []"
    unfolding timestamp_shaped_def list_ex_iff by blast
  then show "\<exists>r. suffix r s \<and> rmatch token r \<noteq> []"
    using suffix_drop by blast
next
  assume "\<exists>r. suffix r s \<and> rmatch token r \<noteq> []"
  then obtain r where r: "suffix r s" "rmatch token r \<noteq> []" by blast
  then obtain p where "s = p @ r" by (auto simp: suffix_def)
  then have "r = drop (length p) s" "length p < Suc (length s)" by auto
  with r(2) show "timestamp_shaped s"
    unfolding timestamp_shaped_def list_ex_iff by (metis atLeast0LessThan lessThan_iff set_upt)
qed

lemma shaped_suffix: "timestamp_shaped r \<Longrightarrow> suffix r s \<Longrightarrow> timestamp_shaped s"
  unfolding timestamp_shaped_iff using suffix_order.trans by blast

lemma shaped_append:
  assumes "timestamp_shaped s"
  shows "timestamp_shaped (s @ t)"
proof -
  from assms obtain r where "suffix r s" "rmatch token r \<noteq> []"
    unfolding timestamp_shaped_iff by blast
  then have "suffix (r @ t) (s @ t)" "rmatch token (r @ t) \<noteq> []"
    by (auto simp: suffix_def token_append)
  then show ?thesis unfolding timestamp_shaped_iff by blast
qed

lemma strip_decomp: "\<exists>p q. s = p @ py_strip s @ q"
proof -
  let ?t = "dropWhile is_space s"
  have "rev (dropWhile is_space (rev ?t)) @ rev (takeWhile is_space (rev ?t))
          = rev (takeWhile is_space (rev ?t) @ dropWhile is_space (rev ?t))"
    by (simp only: rev_append)
  also have "\<dots> = ?t" by simp
  finally have "?t = py_strip s @ rev (takeWhile is_space (rev ?t))"
    by (simp add: py_strip_def)
  moreover have "s = takeWhile is_space s @ ?t" by simp
  ultimately show ?thesis by metis
qed

lemma shaped_strip:
  assumes "timestamp_shaped (py_strip s)"
  shows "timestamp_shaped s"
proof -
  obtain p q where s: "s = p @ py_strip s @ q" using strip_decomp by blast
  have "timestamp_shaped (py_strip s @ q)" using assms by (rule shaped_append)
  moreover have "suffix (py_strip s @ q) (p @ py_strip s @ q)" by (simp add: suffix_def)
  ultimately have "timestamp_shaped (p @ py_strip s @ q)" by (rule shaped_suffix)
  with s show ?thesis by simp
qed

subsection \<open>The three patterns\<close>

lemma pattern_a_eq:
  "pattern_a = Seq (Opt (Chr (OneOf ''[('')))
     (Seq (Grp token) (Seq (Opt (Chr (OneOf ''])''))) title_rest))"
  by (simp add: pattern_a_def cat_def title_rest_def)

lemma pattern_b_eq: "pattern_b = Seq (Grp token) title_rest"
  by (simp add: pattern_b_def cat_def title_rest_def)

lemma title_rest_space: "rmatch title_rest r \<noteq> [] \<Longrightarrow> \<exists>c r'. r = c # r' \<and> is_space c"
  by (cases r)
     (auto simp: title_rest_def run_length_Nil run_length_Cons rep_counts_zero split: if_splits)

lemma title_rest_colon: "rmatch title_rest (CHR '':'' # y) = []"
  using title_rest_space[of "CHR '':'' # y"] colon_not_space by auto

lemma close_rest_space:
  assumes "rmatch title_rest x \<noteq> []"
  shows "rmatch (Seq (Opt (Chr (OneOf ''])''))) title_rest) x = rmatch title_rest x"
proof -
  obtain c r' where "x = c # r'" "is_space c" using assms title_rest_space by blast
  then show ?thesis using space_not_bracket[of c] by simp
qed

lemma close_rest_colon:
  "rmatch (Seq (Opt (Chr (OneOf ''])''))) title_rest) (CHR '':'' # y) = []"
  by (simp add: title_rest_colon)

text \<open>Where pattern (b) succeeds, pattern (a) has the very same list of successes.\<close>

lemma b_implies_a:
  assumes "rmatch pattern_b s \<noteq> []"
  shows "rmatch pattern_a s = rmatch pattern_b s"
proof -
  from assms have tk: "rmatch token s \<noteq> []"
    by (auto simp: pattern_b_eq)
  then obtain a s' where s: "s = a # s'" and a: "is_digit a"
    using token_digit by blast
  have opn: "rmatch (Opt (Chr (OneOf ''[(''))) s = [([], s)]"
    using digit_not_bracket[OF a] by (simp add: s)
  from token_shape[of s] tk consider
      x where "rmatch token s = [([], x)]"
    | x y where "rmatch token s = [([], x), ([], CHR '':'' # y)]"
    by blast
  then show ?thesis
  proof cases
    case 1
    with assms have "rmatch title_rest x \<noteq> []"
      by (auto simp: pattern_b_eq)
    from close_rest_space[OF this] show ?thesis
      using 1 opn by (simp add: pattern_a_eq pattern_b_eq del: rmatch.simps(4))
  next
    case 2
    with assms have "rmatch title_rest x \<noteq> []"
      by (auto simp: pattern_b_eq title_rest_colon)
    from close_rest_space[OF this] show ?thesis
      using 2 opn close_rest_colon[of y]
      by (simp add: pattern_a_eq pattern_b_eq title_rest_colon del: rmatch.simps(4))
  qed
qed

lemma b_match_a: "re_match pattern_b s = Some g \<Longrightarrow> re_match pattern_a s = Some g"
  using b_implies_a[of s] by (auto simp: re_match_def split: list.splits)

lemma first_match_without_b: "first_match [pattern_a, pattern_c] s = first_match patterns s"
  using b_match_a[of s] by (auto simp: patterns_def split: option.splits)

lemma grp_token_shaped: "rmatch (Seq (Grp token) x) s \<noteq> [] \<Longrightarrow> timestamp_shaped s"
  unfolding timestamp_shaped_iff by (auto intro: exI[of _ s])

lemma pattern_shaped:
  assumes "p \<in> set patterns" "rmatch p s \<noteq> []"
  shows "timestamp_shaped s"
proof -
  consider "p = pattern_a" | "p = pattern_b" | "p = pattern_c"
    using assms(1) by (auto simp: patterns_def)
  then show ?thesis
  proof cases
    case 1
    with assms(2) obtain r where "suffix r s"
      "rmatch (Seq (Grp token) (Seq (Opt (Chr (OneOf ''])''))) title_rest)) r \<noteq> []"
      using seq_later pattern_a_eq by metis
    then show ?thesis using shaped_suffix grp_token_shaped by blast
  next
    case 2
    with assms(2) have "rmatch (Seq (Grp token) title_rest) s \<noteq> []"
      using pattern_b_eq by metis
    then show ?thesis by (rule grp_token_shaped)
  next
    case 3
    define x3 where "x3 = Seq (Grp token) (Seq (Opt (Chr (OneOf ''])''))) (Seq Eol Eps))"
    define x2 where "x2 = Seq (Opt (Chr (OneOf ''[(''))) x3"
    define x1 where "x1 = Seq (Rep True Space 1 None) x2"
    have "pattern_c = Seq (Grp (Rep False AnyChar 1 None)) x1"
      by (simp add: pattern_c_def cat_def x1_def x2_def x3_def)
    with 3 assms(2) obtain r1 where r1: "suffix r1 s" "rmatch x1 r1 \<noteq> []"
      using seq_later by metis
    then obtain r2 where r2: "suffix r2 r1" "rmatch x2 r2 \<noteq> []"
      unfolding x1_def using seq_later by metis
    then obtain r3 where r3: "suffix r3 r2" "rmatch x3 r3 \<noteq> []"
      unfolding x2_def using seq_later by metis
    then have "timestamp_shaped r3" unfolding x3_def by (rule_tac grp_token_shaped)
    then have "timestamp_shaped r2" using r3(1) by (rule shaped_suffix)
    then have "timestamp_shaped r1" using r2(1) by (rule shaped_suffix)
    then show ?thesis using r1(1) by (rule shaped_suffix)
  qed
qed

lemma first_match_Some: "first_match ps s = Some x \<Longrightarrow> \<exists>p \<in> set ps. rmatch p s \<noteq> []"
  by (induction ps) (auto simp: re_match_def split: option.splits list.splits)

subsection \<open>The line extractor\<close>

lemma no_shape_no_match:
  assumes "\<not> timestamp_shaped line"
  shows "parse_timestamp_line self line = None"
proof (rule ccontr)
  assume "parse_timestamp_line self line \<noteq> None"
  then obtain x where "first_match patterns (re_sub_empty list_prefix (py_strip line)) = Some x"
    by (auto simp: parse_timestamp_line_def Let_def split: if_splits)
  then have "timestamp_shaped (re_sub_empty list_prefix (py_strip line))"
    using first_match_Some pattern_shaped by blast
  then have "timestamp_shaped (py_strip line)"
    using sub_suffix shaped_suffix by blast
  then show False using assms shaped_strip by blast
qed

lemma blank_no_match:
  assumes "\<forall>c \<in> set line. is_space c"
  shows "parse_timestamp_line self line = None"
proof -
  have "dropWhile is_space line = []" using assms by simp
  then have "py_strip line = []" by (simp only: py_strip_def dropWhile.simps rev.simps)
  then show ?thesis by (simp add: parse_timestamp_line_def)
qed

text \<open>
  C2. On the canonical lines the extractor returns the stated pairs: \<^verbatim>\<open>0:00 Intro\<close>,
  \<^verbatim>\<open>[0:00] Intro\<close> and \<^verbatim>\<open>Intro (0:00)\<close> give timestamp \<^verbatim>\<open>0:00\<close> and title \<^verbatim>\<open>Intro\<close>, and
  \<^verbatim>\<open>1. 0:05 Second Track\<close> gives \<^verbatim>\<open>0:05\<close> and \<^verbatim>\<open>Second Track\<close>, the ordinal marker being
  stripped first. A line of whitespace only gives no match, and so does every line in
  which the timestamp part of the patterns matches at no offset.
\<close>

theorem extract_canonical_shapes:
  "parse_timestamp_line self ''0:00 Intro'' = Some \<lparr>timestamp = ''0:00'', title = ''Intro''\<rparr>
   \<and> parse_timestamp_line self ''[0:00] Intro'' = Some \<lparr>timestamp = ''0:00'', title = ''Intro''\<rparr>
   \<and> parse_timestamp_line self ''Intro (0:00)'' = Some \<lparr>timestamp = ''0:00'', title = ''Intro''\<rparr>
   \<and> parse_timestamp_line self ''1. 0:05 Second Track''
        = Some \<lparr>timestamp = ''0:05'', title = ''Second Track''\<rparr>
   \<and> (\<forall>line. (\<forall>c \<in> set line. is_space c) \<longrightarrow> parse_timestamp_line self line = None)
   \<and> (\<forall>line. \<not> timestamp_shaped line \<longrightarrow> parse_timestamp_line self line = None)"
proof (intro conjI allI impI)
  show "parse_timestamp_line self ''0:00 Intro'' = Some \<lparr>timestamp = ''0:00'', title = ''Intro''\<rparr>"
    by code_simp
  show "parse_timestamp_line self ''[0:00] Intro'' = Some \<lparr>timestamp = ''0:00'', title = ''Intro''\<rparr>"
    by code_simp
  show "parse_timestamp_line self ''Intro (0:00)'' = Some \<lparr>timestamp = ''0:00'', title = ''Intro''\<rparr>"
    by code_simp
  show "parse_timestamp_line self ''1. 0:05 Second Track''
        = Some \<lparr>timestamp = ''0:05'', title = ''Second Track''\<rparr>"
    by code_simp
next
  fix line assume "\<forall>c \<in> set line. is_space c"
  then show "parse_timestamp_line self line = None" by (rule blank_no_match)
next
  fix line assume "\<not> timestamp_shaped line"
  then show "parse_timestamp_line self line = None" by (rule no_shape_no_match)
qed

theorem extract_canonical_shapes_witness:
  "is_space CHR '' '' \<and> parse_timestamp_line init ''   '' = None
   \<and> \<not> timestamp_shaped ''just text, no timestamp''
   \<and> parse_timestamp_line init ''just text, no timestamp'' = None"
proof -
  have blank: "\<forall>c \<in> set ''   ''. is_space c"
    by (simp add: is_space_def whitespace_def)
  have plain: "\<not> timestamp_shaped ''just text, no timestamp''"
    by code_simp
  have sp: "is_space CHR '' ''"
    by (simp add: is_space_def whitespace_def)
  from extract_canonical_shapes[of init] blank plain sp show ?thesis
    by blast
qed

text \<open>
  C6 (the code departs from it). A line in the suffix form whose title has a colon of its
  own, \<^verbatim>\<open>Artist: Song 3:45\<close>: pattern (c) captures the title first and the timestamp
  second, the test \<^verbatim>\<open>':' in g[0]\<close> succeeds on the title, and the two are returned
  exchanged; \<^verbatim>\<open>parse_timestamp\<close> then rejects the title as a timestamp.
\<close>

theorem suffix_form_title_with_colon:
  "re_match pattern_a ''Artist: Song 3:45'' = None
   \<and> re_match pattern_b ''Artist: Song 3:45'' = None
   \<and> re_match pattern_c ''Artist: Song 3:45'' = Some [''Artist: Song'', ''3:45'']
   \<and> parse_timestamp_line init ''Artist: Song 3:45''
        = Some \<lparr>timestamp = ''Artist: Song'', title = ''3:45''\<rparr>
   \<and> parse_timestamp init ''Artist: Song'' = Inl (InvalidLiteral ''Artist'')"
  by code_simp

text \<open>
  C7. Pattern (b) is subsumed by pattern (a): on every text on which (b) matches, (a)
  matches with the same two groups, hence the same timestamp and title; and the extractor
  without (b) returns on every line what the extractor of the source returns.
\<close>

theorem pattern_b_subsumed:
  "(\<forall>s g. re_match pattern_b s = Some g \<longrightarrow>
       re_match pattern_a s = Some g \<and> first_match patterns s = assign_groups g)
   \<and> (\<forall>line. parse_timestamp_line_without_b self line = parse_timestamp_line self line)"
proof (intro conjI allI impI)
  fix s g assume b: "re_match pattern_b s = Some g"
  then show "re_match pattern_a s = Some g" by (rule b_match_a)
  then show "first_match patterns s = assign_groups g" by (simp add: patterns_def)
next
  fix line
  show "parse_timestamp_line_without_b self line = parse_timestamp_line self line"
    by (simp only: parse_timestamp_line_without_b_def parse_timestamp_line_def
          first_match_without_b)
qed

theorem pattern_b_subsumed_witness:
  "re_match pattern_b ''1:02:03 Song'' = Some [''1:02:03'', ''Song'']
   \<and> re_match pattern_a ''1:02:03 Song'' = Some [''1:02:03'', ''Song'']
   \<and> first_match patterns ''1:02:03 Song'' = assign_groups [''1:02:03'', ''Song'']"
proof -
  have b: "re_match pattern_b ''1:02:03 Song'' = Some [''1:02:03'', ''Song'']"
    by code_simp
  from pattern_b_subsumed[of init] b show ?thesis
    by blast
qed

subsection \<open>Loading a file\<close>

lemma loop_printed:
  "snd (foldl (process_line self) (ts, pr) xs) =
     pr @ concat (map (\<lambda>(n, line).
        case parse_timestamp_line self line of
          None \<Rightarrow> []
        | Some p \<Rightarrow> (case parse_timestamp self (timestamp p) of
                       Inl e \<Rightarrow> [Skipping n e]
                     | Inr t \<Rightarrow> [])) xs)"
proof (induction xs arbitrary: ts pr)
  case Nil
  then show ?case by simp
next
  case (Cons x xs)
  obtain n line where x: "x = (n, line)" by (cases x)
  obtain ts' pr' where step: "process_line self (ts, pr) (n, line) = (ts', pr')"
    by (cases "process_line self (ts, pr) (n, line)")
  have "pr' = pr @ (case parse_timestamp_line self line of
          None \<Rightarrow> []
        | Some p \<Rightarrow> (case parse_timestamp self (timestamp p) of
                       Inl e \<Rightarrow> [Skipping n e]
                     | Inr t \<Rightarrow> []))"
    using step by (auto simp: process_line_def split: option.splits sum.splits prod.splits)
  then show ?case using Cons.IH[of ts' pr'] step x by simp
qed

lemma warning_mem:
  "Skipping n e \<in> set (case parse_timestamp_line self line of
          None \<Rightarrow> []
        | Some p \<Rightarrow> (case parse_timestamp self (timestamp p) of
                       Inl e' \<Rightarrow> [Skipping m e']
                     | Inr t \<Rightarrow> []))
   \<longleftrightarrow> n = m \<and> (\<exists>p. parse_timestamp_line self line = Some p
                    \<and> parse_timestamp self (timestamp p) = Inl e)"
proof (cases "parse_timestamp_line self line")
  case None
  then show ?thesis by simp
next
  case (Some p)
  then show ?thesis by (cases "parse_timestamp self (timestamp p)") auto
qed

lemma printed_iff:
  "Skipping n e \<in> set (snd (read_loop self lines)) \<longleftrightarrow>
     1 \<le> n \<and> n \<le> length lines \<and>
     (\<exists>p. parse_timestamp_line self (lines ! (n - 1)) = Some p
          \<and> parse_timestamp self (timestamp p) = Inl e)"
proof -
  have "Skipping n e \<in> set (snd (read_loop self lines)) \<longleftrightarrow>
      (\<exists>m line. (m, line) \<in> set (enumerate 1 lines) \<and>
         Skipping n e \<in> set (case parse_timestamp_line self line of
          None \<Rightarrow> []
        | Some p \<Rightarrow> (case parse_timestamp self (timestamp p) of
                       Inl e' \<Rightarrow> [Skipping m e']
                     | Inr t \<Rightarrow> [])))"
    unfolding read_loop_def loop_printed by auto
  also have "\<dots> \<longleftrightarrow> (\<exists>line. (n, line) \<in> set (enumerate 1 lines) \<and>
        (\<exists>p. parse_timestamp_line self line = Some p \<and> parse_timestamp self (timestamp p) = Inl e))"
    unfolding warning_mem by blast
  also have "\<dots> \<longleftrightarrow> 1 \<le> n \<and> n \<le> length lines \<and>
     (\<exists>p. parse_timestamp_line self (lines ! (n - 1)) = Some p
          \<and> parse_timestamp self (timestamp p) = Inl e)"
    by (auto simp: in_set_enumerate_eq)
  finally show ?thesis .
qed

lemma read_Lines:
  "read_timestamps_file self filepath (Lines lines) =
     (if fst (read_loop self lines) = []
      then (Inl (Exception ''Error reading file: No valid timestamps found in file''), self,
            snd (read_loop self lines))
      else (Inr (length (fst (read_loop self lines))),
            self\<lparr>tracks := fst (read_loop self lines)\<rparr>, snd (read_loop self lines)))"
  by (simp add: read_timestamps_file_def try_body_def handlers_def split: prod.splits)

lemma read_Raises:
  "read_timestamps_file self filepath (Raises e) = (Inl (handlers filepath e), self, [])"
  by (simp add: read_timestamps_file_def try_body_def)

text \<open>
  C3 as stated fails: a line on which no pattern matches is passed over without any
  output. Here line 2 has no structural match, the call succeeds with the one track of
  line 1, and nothing has been printed.
\<close>

theorem no_diagnostic_for_unmatched_line:
  "parse_timestamp_line init ''just text'' = None
   \<and> read_timestamps_file init ''list.txt'' (Lines [''0:00 Intro'', ''just text''])
       = (Inr 1, init\<lparr>tracks := [\<lparr>track.title = ''Intro'', minutes = 0, seconds = 0, frames = 0\<rparr>]\<rparr>, [])"
  by code_simp

text \<open>
  C3, amended. When the file is read, what is printed is, line after line, one warning
  for each line from which a pair was extracted and whose timestamp \<^verbatim>\<open>parse_timestamp\<close>
  rejected, and nothing for any other line: a warning with line number \<open>n\<close> and error \<open>e\<close> is
  printed exactly when \<open>n\<close> is the 1-based number of such a line and \<open>e\<close> the error of its
  timestamp. The warning carries the line number and the error, which names the rejected
  token or part, not the text of the line.
\<close>

theorem warnings_for_failed_conversions:
  assumes "read_timestamps_file self filepath (Lines lines) = (res, self', printed)"
  shows
    "printed = concat (map (\<lambda>(n, line).
        case parse_timestamp_line self line of
          None \<Rightarrow> []
        | Some p \<Rightarrow> (case parse_timestamp self (timestamp p) of
                       Inl e \<Rightarrow> [Skipping n e]
                     | Inr t \<Rightarrow> [])) (enumerate 1 lines))
     \<and> (Skipping n e \<in> set printed \<longleftrightarrow>
          1 \<le> n \<and> n \<le> length lines \<and>
          (\<exists>p. parse_timestamp_line self (lines ! (n - 1)) = Some p
               \<and> parse_timestamp self (timestamp p) = Inl e))"
proof -
  from assms have pr: "printed = snd (read_loop self lines)"
    by (auto simp: read_Lines split: if_splits)
  then show ?thesis
    using printed_iff[of n e self lines] loop_printed[of self "[]" "[]" "enumerate 1 lines"]
    by (simp add: read_loop_def)
qed

theorem warnings_for_failed_conversions_witness:
  "read_timestamps_file init ''list.txt'' (Lines [''0:00 Intro'', ''Artist: Song 3:45''])
     = (Inr 1, init\<lparr>tracks := [\<lparr>track.title = ''Intro'', minutes = 0, seconds = 0, frames = 0\<rparr>]\<rparr>,
        [Skipping 2 (InvalidLiteral ''Artist'')])
   \<and> parse_timestamp_line init ([''0:00 Intro'', ''Artist: Song 3:45''] ! (2 - 1))
       = Some \<lparr>timestamp = ''Artist: Song'', title = ''3:45''\<rparr>
   \<and> parse_timestamp init ''Artist: Song'' = Inl (InvalidLiteral ''Artist'')
   \<and> read_timestamps_file init ''list.txt'' (Lines [CHR ''1'' # CHR 0x1F # '':09 3:45''])
     = (Inl (Exception ''Error reading file: No valid timestamps found in file''), init,
        [Skipping 1 (InvalidLiteral [CHR ''1'', CHR 0x1F])])"
proof -
  have sep: "read_timestamps_file init ''list.txt'' (Lines [CHR ''1'' # CHR 0x1F # '':09 3:45''])
     = (Inl (Exception ''Error reading file: No valid timestamps found in file''), init,
        [Skipping 1 (InvalidLiteral [CHR ''1'', CHR 0x1F])])"
    by code_simp
  have run: "read_timestamps_file init ''list.txt'' (Lines [''0:00 Intro'', ''Artist: Song 3:45''])
     = (Inr 1, init\<lparr>tracks := [\<lparr>track.title = ''Intro'', minutes = 0, seconds = 0, frames = 0\<rparr>]\<rparr>,
        [Skipping 2 (InvalidLiteral ''Artist'')])"
    by code_simp
  have "\<exists>p. parse_timestamp_line init ([''0:00 Intro'', ''Artist: Song 3:45''] ! (2 - 1)) = Some p
          \<and> parse_timestamp init (timestamp p) = Inl (InvalidLiteral ''Artist'')"
    using warnings_for_failed_conversions[OF run, of 2 "InvalidLiteral ''Artist''"] by simp
  moreover have "parse_timestamp_line init ([''0:00 Intro'', ''Artist: Song 3:45''] ! (2 - 1))
       = Some \<lparr>timestamp = ''Artist: Song'', title = ''3:45''\<rparr>"
    by code_simp
  ultimately show ?thesis using run sep by auto
qed

text \<open>
  C4 (the code departs from it). On a readable file without any track the body of the
  \<^verbatim>\<open>try\<close> raises the documented \<^verbatim>\<open>ValueError\<close>, once, after the loop; but the clause
  \<^verbatim>\<open>except Exception\<close> of the same function catches it, and the caller receives a plain
  \<^verbatim>\<open>Exception\<close> whose message starts \<^verbatim>\<open>Error reading file:\<close>, of the same class and with the
  same prefix as the report of an I/O failure.
\<close>

theorem no_tracks_error_is_wrapped:
  "read_timestamps_file init ''list.txt'' (Lines [''just text''])
     = (Inl (Exception ''Error reading file: No valid timestamps found in file''), init, [])
   \<and> try_body init (Lines [''just text''])
     = (Inl (ValueError ''No valid timestamps found in file''), init, [])
   \<and> read_timestamps_file init ''list.txt'' (Raises (OtherException ''Permission denied''))
     = (Inl (Exception ''Error reading file: Permission denied''), init, [])"
  by code_simp

text \<open>
  C10. The attribute \<^verbatim>\<open>tracks\<close> changes only on a successful return, and then to the whole
  list that the loop has built, which is not empty; on every error exit the object is as it
  was before the call.
\<close>

theorem load_atomic:
  "read_timestamps_file self filepath outcome = (res, self', printed) \<Longrightarrow>
     (case res of
        Inl e \<Rightarrow> self' = self
      | Inr n \<Rightarrow> (\<exists>lines. outcome = Lines lines \<and> fst (read_loop self lines) \<noteq> []
                    \<and> self' = self\<lparr>tracks := fst (read_loop self lines)\<rparr>
                    \<and> n = length (tracks self')))"
  by (cases outcome) (auto simp: read_Lines read_Raises split: if_splits)

theorem load_atomic_witness:
  "read_timestamps_file
       (init\<lparr>tracks := [\<lparr>track.title = ''Old'', minutes = 1, seconds = 2, frames = 0\<rparr>]\<rparr>)
       ''list.txt'' (Lines [''just text''])
     = (Inl (Exception ''Error reading file: No valid timestamps found in file''),
        init\<lparr>tracks := [\<lparr>track.title = ''Old'', minutes = 1, seconds = 2, frames = 0\<rparr>]\<rparr>, [])
   \<and> tracks (init\<lparr>tracks := [\<lparr>track.title = ''Old'', minutes = 1, seconds = 2, frames = 0\<rparr>]\<rparr>)
     = [\<lparr>track.title = ''Old'', minutes = 1, seconds = 2, frames = 0\<rparr>]"
proof -
  let ?g = "init\<lparr>tracks := [\<lparr>track.title = ''Old'', minutes = 1, seconds = 2, frames = 0\<rparr>]\<rparr>"
  obtain res g' printed where run: "read_timestamps_file ?g ''list.txt'' (Lines [''just text'']) = (res, g', printed)"
    by (cases "read_timestamps_file ?g ''list.txt'' (Lines [''just text''])")
  have res: "fst (read_timestamps_file ?g ''list.txt'' (Lines [''just text'']))
         = Inl (Exception ''Error reading file: No valid timestamps found in file'')"
    by code_simp
  have pr: "snd (snd (read_timestamps_file ?g ''list.txt'' (Lines [''just text'']))) = []"
    by code_simp
  from load_atomic[OF run] res run have "g' = ?g" by simp
  with run res pr show ?thesis by simp
qed

subsection \<open>Timestamps\<close>

lemma int_of_cases: "int_of p = Inl (InvalidLiteral p) \<and> py_int p = None \<or> (\<exists>n. int_of p = Inr n \<and> py_int p = Some n)"
  by (auto simp: int_of_def split: option.splits)

lemma below_ten: "(n::nat) < 10 \<Longrightarrow> n \<in> {0, 1, 2, 3, 4, 5, 6, 7, 8, 9}"
  by auto

lemma digit_char_props:
  assumes "n < 10"
  shows "is_digit (digit_char n)" "digit_value (digit_char n) = n"
    "digit_char n \<noteq> CHR '':''" "\<not> is_space (digit_char n)"
    "digit_char n \<noteq> CHR ''-''" "digit_char n \<noteq> CHR ''+''" "\<not> is_int_space (digit_char n)"
proof -
  have tab: "map digit_char [0, 1, 2, 3, 4, 5, 6, 7, 8, 9] = ''0123456789''"
    by code_simp
  from below_ten[OF assms] tab
  show "is_digit (digit_char n)" "digit_value (digit_char n) = n"
    "digit_char n \<noteq> CHR '':''" "\<not> is_space (digit_char n)"
    "digit_char n \<noteq> CHR ''-''" "digit_char n \<noteq> CHR ''+''" "\<not> is_int_space (digit_char n)"
    by (auto simp: is_digit_def digit_value_def is_space_def whitespace_def is_int_space_def
          int_whitespace_def)
qed

lemma str_nat_one: "n < 10 \<Longrightarrow> str_nat n = [digit_char n]"
  by simp

lemma str_nat_two: "10 \<le> n \<Longrightarrow> n < 100 \<Longrightarrow> str_nat n = [digit_char (n div 10), digit_char (n mod 10)]"
  by (subst str_nat.simps) (simp add: str_nat_one)

lemma format_02d_two: "n < 100 \<Longrightarrow> format_02d (int n) = [digit_char (n div 10), digit_char (n mod 10)]"
proof (cases "n < 10")
  case True
  have "digit_char 0 = CHR ''0''" by code_simp
  with True show ?thesis
    by (simp add: format_02d_def str_int_def Let_def str_nat_one del: str_nat.simps)
next
  case False
  assume "n < 100"
  with False show ?thesis
    by (simp add: format_02d_def str_int_def Let_def str_nat_two del: str_nat.simps)
qed

lemma py_int_one:
  "is_digit a \<Longrightarrow> a \<noteq> CHR ''-'' \<Longrightarrow> a \<noteq> CHR ''+'' \<Longrightarrow> \<not> is_int_space a
     \<Longrightarrow> py_int [a] = Some (int (digit_value a))"
  by (simp add: py_int_def int_strip_def dec_literal_def max_str_digits_def)

lemma py_int_two:
  "is_digit a \<Longrightarrow> a \<noteq> CHR ''-'' \<Longrightarrow> a \<noteq> CHR ''+'' \<Longrightarrow> \<not> is_int_space a \<Longrightarrow> is_digit b
     \<Longrightarrow> \<not> is_int_space b
     \<Longrightarrow> py_int [a, b] = Some (int (10 * digit_value a + digit_value b))"
  by (simp add: py_int_def int_strip_def dec_literal_def max_str_digits_def)

lemma py_int_digit_char: "n < 10 \<Longrightarrow> py_int [digit_char n] = Some (int n)"
  using digit_char_props[of n] by (simp add: py_int_one)

lemma py_int_digit_chars: "n < 100 \<Longrightarrow> py_int [digit_char (n div 10), digit_char (n mod 10)] = Some (int n)"
proof -
  assume "n < 100"
  then have "n div 10 < 10" "n mod 10 < 10" by auto
  then show ?thesis using digit_char_props[of "n div 10"] digit_char_props[of "n mod 10"]
    by (simp add: py_int_two)
qed

lemma py_int_str: "n < 100 \<Longrightarrow> py_int (str_int (int n)) = Some (int n)"
  by (cases "n < 10") (simp_all add: str_int_def str_nat_one str_nat_two py_int_digit_char py_int_digit_chars del: str_nat.simps)

lemma py_int_format: "n < 100 \<Longrightarrow> py_int (format_02d (int n)) = Some (int n)"
  by (simp add: format_02d_two py_int_digit_chars)

lemma split_digits: "\<forall>c \<in> set s. is_digit c \<Longrightarrow> py_split CHR '':'' (s @ CHR '':'' # r) = s # py_split CHR '':'' r"
  by (induction s) (auto simp: colon_not_digit)

lemma split_digits_end: "\<forall>c \<in> set s. is_digit c \<Longrightarrow> py_split CHR '':'' s = [s]"
  by (induction s) (auto simp: colon_not_digit)


lemma digit_not_space: "is_digit c \<Longrightarrow> \<not> is_space c"
  by (auto simp: is_digit_def is_space_def whitespace_def)

lemma strip_no_space:
  assumes "\<forall>c \<in> set s. \<not> is_space c"
  shows "py_strip s = s"
proof -
  have "dropWhile is_space s = s"
    using assms by (cases s) auto
  moreover have "dropWhile is_space (rev s) = rev s"
    using assms by (cases "rev s") (auto simp: dropWhile_eq_self_iff intro: hd_in_set)
  ultimately show ?thesis by (simp add: py_strip_def)
qed

lemma parse_two:
  assumes "\<forall>c \<in> set a. is_digit c" "\<forall>c \<in> set b. is_digit c"
    and "py_int a = Some x" "py_int b = Some y"
  shows "parse_timestamp self (a @ '':'' @ b) = Inr (x, y, 0)"
proof -
  have "\<forall>c \<in> set (a @ '':'' @ b). \<not> is_space c"
    using assms(1,2) digit_not_space colon_not_space by auto
  then have "py_strip (a @ '':'' @ b) = a @ '':'' @ b" by (rule strip_no_space)
  moreover have "py_split CHR '':'' (a @ '':'' @ b) = [a, b]"
    using assms(1,2) by (simp add: split_digits split_digits_end)
  ultimately show ?thesis
    using assms(3,4) by (simp add: parse_timestamp_def int_of_def)
qed

lemma parse_three:
  assumes "\<forall>c \<in> set a. is_digit c" "\<forall>c \<in> set b. is_digit c" "\<forall>c \<in> set d. is_digit c"
    and "py_int a = Some x" "py_int b = Some y" "py_int d = Some z"
  shows "parse_timestamp self (a @ '':'' @ b @ '':'' @ d) = Inr (y + x * 60, z, 0)"
proof -
  have "\<forall>c \<in> set (a @ '':'' @ b @ '':'' @ d). \<not> is_space c"
    using assms(1,2,3) digit_not_space colon_not_space by auto
  then have "py_strip (a @ '':'' @ b @ '':'' @ d) = a @ '':'' @ b @ '':'' @ d"
    by (rule strip_no_space)
  moreover have "py_split CHR '':'' (a @ '':'' @ b @ '':'' @ d) = [a, b, d]"
    using assms(1,2,3) by (simp add: split_digits split_digits_end)
  ultimately show ?thesis
    using assms(4,5,6) by (simp add: parse_timestamp_def int_of_def)
qed

lemma format_digits: "n < 100 \<Longrightarrow> \<forall>c \<in> set (format_02d (int n)). is_digit c"
proof -
  assume "n < 100"
  then have "n div 10 < 10" "n mod 10 < 10" by auto
  then show ?thesis using \<open>n < 100\<close> digit_char_props(1) by (simp add: format_02d_two)
qed

lemma str_digits: "n < 100 \<Longrightarrow> \<forall>c \<in> set (str_int (int n)). is_digit c"
proof (cases "n < 10")
  case True
  then show ?thesis using digit_char_props(1) by (simp add: str_int_def str_nat_one del: str_nat.simps)
next
  case False
  assume "n < 100"
  then have "n div 10 < 10" "n mod 10 < 10" by auto
  then show ?thesis using False \<open>n < 100\<close> digit_char_props(1)
    by (simp add: str_int_def str_nat_two del: str_nat.simps)
qed

text \<open>
  C1. A token \<^verbatim>\<open>M:SS\<close> or \<^verbatim>\<open>MM:SS\<close> with minutes and seconds from 0 to 99, the minutes written
  with one or two digits and the seconds with two, is accepted and gives minutes \<open>M\<close>, seconds
  \<open>SS\<close> and frames 0; a token \<^verbatim>\<open>H:MM:SS\<close> gives minutes \<open>H * 60 + MM\<close>. Seconds from 60 to 99 are
  returned as they stand.
\<close>

theorem parse_valid_tokens:
  assumes "H \<le> 99" "M \<le> 99" "SS \<le> 99"
  shows
   "parse_timestamp self (str_int (int M) @ '':'' @ format_02d (int SS)) = Inr (int M, int SS, 0)
    \<and> parse_timestamp self (format_02d (int M) @ '':'' @ format_02d (int SS))
        = Inr (int M, int SS, 0)
    \<and> parse_timestamp self (str_int (int H) @ '':'' @ format_02d (int M) @ '':'' @ format_02d (int SS))
        = Inr (int H * 60 + int M, int SS, 0)
    \<and> parse_timestamp self (format_02d (int H) @ '':'' @ format_02d (int M) @ '':'' @ format_02d (int SS))
        = Inr (int H * 60 + int M, int SS, 0)"
proof -
  from assms have h: "H < 100" and m: "M < 100" and s: "SS < 100" by auto
  have 1: "parse_timestamp self (str_int (int M) @ '':'' @ format_02d (int SS)) = Inr (int M, int SS, 0)"
    by (rule parse_two[OF str_digits[OF m] format_digits[OF s] py_int_str[OF m] py_int_format[OF s]])
  have 2: "parse_timestamp self (format_02d (int M) @ '':'' @ format_02d (int SS)) = Inr (int M, int SS, 0)"
    by (rule parse_two[OF format_digits[OF m] format_digits[OF s] py_int_format[OF m] py_int_format[OF s]])
  have 3: "parse_timestamp self (str_int (int H) @ '':'' @ format_02d (int M) @ '':'' @ format_02d (int SS))
        = Inr (int M + int H * 60, int SS, 0)"
    by (rule parse_three[OF str_digits[OF h] format_digits[OF m] format_digits[OF s]
          py_int_str[OF h] py_int_format[OF m] py_int_format[OF s]])
  have 4: "parse_timestamp self (format_02d (int H) @ '':'' @ format_02d (int M) @ '':'' @ format_02d (int SS))
        = Inr (int M + int H * 60, int SS, 0)"
    by (rule parse_three[OF format_digits[OF h] format_digits[OF m] format_digits[OF s]
          py_int_format[OF h] py_int_format[OF m] py_int_format[OF s]])
  from 1 2 3 4 show ?thesis by (simp add: add.commute)
qed

theorem parse_valid_tokens_witness:
  "parse_timestamp init ''7:75'' = Inr (7, 75, 0)
   \<and> parse_timestamp init ''07:75'' = Inr (7, 75, 0)
   \<and> parse_timestamp init ''1:07:75'' = Inr (67, 75, 0)
   \<and> parse_timestamp init ''01:07:75'' = Inr (67, 75, 0)"
proof -
  have a: "str_int (int 7) = ''7''" "format_02d (int 7) = ''07''" "format_02d (int 75) = ''75''"
    "str_int (int 1) = ''1''" "format_02d (int 1) = ''01''"
    by code_simp+
  have "(1::nat) \<le> 99" "(7::nat) \<le> 99" "(75::nat) \<le> 99" by simp_all
  from parse_valid_tokens[OF this, of init] show ?thesis
    unfolding a by simp
qed

text \<open>What \<^verbatim>\<open>strip\<close> leaves, for any set of characters to strip.\<close>

lemma strip_expr_decomp:
  "\<exists>pre post. s = pre @ rev (dropWhile P (rev (dropWhile P s))) @ post
      \<and> list_all P pre \<and> list_all P post"
proof -
  let ?t = "dropWhile P s"
  let ?m = "rev (dropWhile P (rev ?t))"
  have "?m @ rev (takeWhile P (rev ?t)) = rev (takeWhile P (rev ?t) @ dropWhile P (rev ?t))"
    by (simp only: rev_append)
  also have "\<dots> = ?t" by simp
  finally have t: "?t = ?m @ rev (takeWhile P (rev ?t))" by simp
  have "s = takeWhile P s @ ?t" by simp
  with t have "s = takeWhile P s @ ?m @ rev (takeWhile P (rev ?t))" by simp
  moreover have "list_all P (takeWhile P s)"
    by (simp add: list_all_iff) (meson set_takeWhileD)
  moreover have "list_all P (rev (takeWhile P (rev ?t)))"
    by (simp add: list_all_iff) (meson set_takeWhileD)
  ultimately show ?thesis by blast
qed

lemma strip_expr_ends:
  assumes "rev (dropWhile P (rev (dropWhile P s))) = m" "m \<noteq> []"
  shows "\<not> P (hd m)" "\<not> P (last m)"
proof -
  let ?t = "dropWhile P s"
  from assms have ne: "dropWhile P (rev ?t) \<noteq> []" by auto
  then have "\<not> P (hd (dropWhile P (rev ?t)))" by (rule hd_dropWhile)
  then show "\<not> P (last m)" using assms ne by (metis hd_rev rev_rev_ident)
  have "m @ rev (takeWhile P (rev ?t)) = rev (takeWhile P (rev ?t) @ dropWhile P (rev ?t))"
    using assms(1) by (simp only: rev_append)
  also have "\<dots> = ?t" by simp
  finally have t: "?t = m @ rev (takeWhile P (rev ?t))" by simp
  with assms(2) have tne: "?t \<noteq> []" by (metis append_is_Nil_conv)
  then have "\<not> P (hd ?t)" by (rule hd_dropWhile)
  moreover have "hd ?t = hd m" using t assms(2) by (metis hd_append2)
  ultimately show "\<not> P (hd m)" by simp
qed

lemma strip_expr_unique:
  assumes "list_all P pre" "list_all P post" "m \<noteq> []" "\<not> P (hd m)" "\<not> P (last m)"
  shows "rev (dropWhile P (rev (dropWhile P (pre @ m @ post)))) = m"
proof -
  obtain a m' where m: "m = a # m'" using assms(3) by (cases m) auto
  have "dropWhile P (pre @ m @ post) = m @ post"
    using assms(1,4) m by (simp add: list_all_iff dropWhile_append)
  moreover have "rev (m @ post) = rev post @ rev m" by simp
  moreover have "dropWhile P (rev post @ rev m) = rev m"
  proof -
    have "dropWhile P (rev post @ rev m) = dropWhile P (rev m)"
      using assms(2) by (intro dropWhile_append2) (simp add: list_all_iff)
    moreover have "rev m \<noteq> []" "hd (rev m) = last m" using assms(3) by (simp_all add: hd_rev)
    then have "dropWhile P (rev m) = rev m"
      using assms(5) by (simp add: dropWhile_eq_self_iff)
    ultimately show ?thesis by simp
  qed
  ultimately show ?thesis by simp
qed

lemma strip_expr_all:
  assumes "list_all P s"
  shows "rev (dropWhile P (rev (dropWhile P s))) = []"
proof -
  have "dropWhile P s = []" using assms by (simp add: list_all_iff)
  then show ?thesis by (simp only: rev.simps dropWhile.simps)
qed

text \<open>\<open>py_int\<close> accepts exactly the texts of the shape \<open>int_literal\<close>.\<close>

lemma underscores_ok_iff:
  "underscores_ok b \<longleftrightarrow>
     (\<forall>i < length b. is_digit (b ! i)
          \<or> (b ! i = CHR ''_'' \<and> Suc i < length b \<and> is_digit (b ! Suc i)))"
  by (auto simp add: underscores_ok_def list_all_iff)

lemma underscores_ok_Nil: "underscores_ok []"
  by (simp add: underscores_ok_iff)

lemma underscores_ok_Cons:
  "underscores_ok (c # cs) \<longleftrightarrow>
     (is_digit c \<or> (c = CHR ''_'' \<and> cs \<noteq> [] \<and> is_digit (hd cs))) \<and> underscores_ok cs"
  unfolding underscores_ok_iff
  by (cases cs) (simp_all add: All_less_Suc2)

lemma underscore_not_digit: "\<not> is_digit CHR ''_''"
  by (simp add: is_digit_def)

lemma digits_from_iff: "digits_from acc cs \<noteq> None \<longleftrightarrow> underscores_ok cs"
proof (induction acc cs rule: digits_from.induct)
  case (1 acc)
  then show ?case by (simp add: underscores_ok_Nil)
next
  case (2 acc c cs)
  show ?case
  proof (cases "is_digit c")
    case True
    then show ?thesis using 2(1) by (simp add: underscores_ok_Cons)
  next
    case nd: False
    show ?thesis
    proof (cases "c = CHR ''_''")
      case False
      then show ?thesis using nd by (simp add: underscores_ok_Cons)
    next
      case us: True
      show ?thesis
      proof (cases cs)
        case Nil
        then show ?thesis using nd us by (simp add: underscores_ok_Cons)
      next
        case (Cons d ds)
        show ?thesis
        proof (cases "is_digit d")
          case True
          then show ?thesis
            using nd us Cons 2(2)[OF nd us Cons True]
            by (simp add: underscores_ok_Cons)
        next
          case False
          then show ?thesis
            using nd us Cons by (simp add: underscores_ok_Cons)
        qed
      qed
    qed
  qed
qed

lemma dec_literal_iff: "dec_literal b \<noteq> None \<longleftrightarrow> int_body b"
proof (cases b)
  case Nil
  then show ?thesis by (simp add: dec_literal_def int_body_def)
next
  case (Cons c cs)
  then show ?thesis
    using digits_from_iff[of "digit_value c" cs]
    by (auto simp: dec_literal_def int_body_def underscores_ok_Cons)
qed

lemma int_body_last: "int_body b \<Longrightarrow> is_digit (last b)"
proof -
  assume a: "int_body b"
  then have ne: "b \<noteq> []" and ok: "underscores_ok b" by (auto simp: int_body_def)
  from ne have "length b - 1 < length b" by simp
  with ok have "is_digit (b ! (length b - 1))"
    unfolding underscores_ok_iff by (metis Suc_diff_1 length_greater_0_conv ne not_less_eq order_less_irrefl)
  then show ?thesis using ne by (simp add: last_conv_nth)
qed

lemma sign_not_space: "\<not> is_int_space CHR ''+''" "\<not> is_int_space CHR ''-''"
  by (simp_all add: is_int_space_def int_whitespace_def)

lemma digit_not_int_space: "is_digit c \<Longrightarrow> \<not> is_int_space c"
  by (auto simp: is_digit_def is_int_space_def int_whitespace_def)

lemma digit_not_sign: "is_digit c \<Longrightarrow> c \<noteq> CHR ''+'' \<and> c \<noteq> CHR ''-''"
  by (auto simp: is_digit_def)

lemma py_int_literal:
  assumes "int_literal p"
  shows "py_int p \<noteq> None"
proof -
  from assms obtain pre sign body post where p: "p = pre @ sign @ body @ post"
    and pre: "list_all is_int_space pre" and post: "list_all is_int_space post"
    and sign: "sign = [] \<or> sign = ''+'' \<or> sign = ''-''" and body: "int_body body"
    by (auto simp: int_literal_def)
  from body obtain c cs where b: "body = c # cs" and c: "is_digit c"
    by (cases body) (auto simp: int_body_def)
  have lastd: "is_digit (last body)" using body by (rule int_body_last)
  have dl: "dec_literal body \<noteq> None" using body dec_literal_iff[of body] by blast
  let ?m = "sign @ body"
  have m: "?m \<noteq> []" "\<not> is_int_space (hd ?m)" "\<not> is_int_space (last ?m)"
    using sign b c lastd digit_not_int_space sign_not_space by auto
  have "int_strip p = ?m"
    unfolding int_strip_def p using strip_expr_unique[OF pre post m] by simp
  then show ?thesis
    using sign dl b c digit_not_sign[OF c] by (auto simp: py_int_def)
qed

lemma literal_py_int:
  assumes "py_int p \<noteq> None"
  shows "int_literal p"
proof -
  obtain pre post where p: "p = pre @ int_strip p @ post"
    and pre: "list_all is_int_space pre" and post: "list_all is_int_space post"
    using strip_expr_decomp[of p is_int_space] unfolding int_strip_def by blast
  from assms obtain c cs where s: "int_strip p = c # cs"
    by (cases "int_strip p") (auto simp: py_int_def)
  consider (minus) "c = CHR ''-''" "dec_literal cs \<noteq> None"
    | (plus) "c = CHR ''+''" "dec_literal cs \<noteq> None"
    | (bare) "c \<noteq> CHR ''-''" "c \<noteq> CHR ''+''" "dec_literal (c # cs) \<noteq> None"
    using assms s by (auto simp: py_int_def split: if_splits)
  then show ?thesis
  proof cases
    case minus
    then have "int_body cs" using dec_literal_iff[of cs] by blast
    moreover have "p = pre @ ''-'' @ cs @ post" using p s minus(1) by simp
    ultimately show ?thesis unfolding int_literal_def using pre post by blast
  next
    case plus
    then have "int_body cs" using dec_literal_iff[of cs] by blast
    moreover have "p = pre @ ''+'' @ cs @ post" using p s plus(1) by simp
    ultimately show ?thesis unfolding int_literal_def using pre post by blast
  next
    case bare
    then have "int_body (c # cs)" using dec_literal_iff[of "c # cs"] by blast
    moreover have "p = pre @ [] @ (c # cs) @ post" using p s by simp
    ultimately show ?thesis unfolding int_literal_def using pre post by blast
  qed
qed

lemma py_int_None_iff: "py_int p = None \<longleftrightarrow> \<not> int_literal p"
  using py_int_literal literal_py_int by blast

text \<open>\<^verbatim>\<open>split\<close> cuts at every separator, and the pieces have none.\<close>

lemma split_ne: "py_split sep s \<noteq> []"
  by (induction s) (auto split: list.splits)

lemma split_no_sep: "sep \<notin> set a \<Longrightarrow> py_split sep a = [a]"
  by (induction a) auto

lemma split_at_sep: "sep \<notin> set a \<Longrightarrow> py_split sep (a @ sep # r) = a # py_split sep r"
  by (induction a) auto

lemma split_hd:
  "py_split sep s = g # gs \<Longrightarrow>
     sep \<notin> set g \<and> (if gs = [] then s = g else (\<exists>r. s = g @ sep # r \<and> py_split sep r = gs))"
proof (induction s arbitrary: g gs)
  case Nil
  then show ?case by simp
next
  case (Cons c cs)
  show ?case
  proof (cases "c = sep")
    case True
    then show ?thesis using Cons.prems split_ne[of sep cs] by auto
  next
    case False
    obtain p ps where ps: "py_split sep cs = p # ps"
      using split_ne[of sep cs] by (cases "py_split sep cs") auto
    with False Cons.prems have g: "g = c # p" "gs = ps" by auto
    from Cons.IH[OF ps] show ?thesis using g False by auto
  qed
qed

lemma split_two_iff:
  "py_split sep s = [a, b] \<longleftrightarrow> s = a @ sep # b \<and> sep \<notin> set a \<and> sep \<notin> set b"
proof
  assume l: "py_split sep s = [a, b]"
  from split_hd[OF l] obtain r where r: "sep \<notin> set a" "s = a @ sep # r" "py_split sep r = [b]"
    by auto
  from split_hd[OF r(3)] have "sep \<notin> set b" "r = b" by auto
  with r show "s = a @ sep # b \<and> sep \<notin> set a \<and> sep \<notin> set b" by simp
next
  assume "s = a @ sep # b \<and> sep \<notin> set a \<and> sep \<notin> set b"
  then show "py_split sep s = [a, b]" by (simp add: split_at_sep split_no_sep)
qed

lemma split_three_iff:
  "py_split sep s = [a, b, c] \<longleftrightarrow>
     s = a @ sep # b @ sep # c \<and> sep \<notin> set a \<and> sep \<notin> set b \<and> sep \<notin> set c"
proof
  assume l: "py_split sep s = [a, b, c]"
  from split_hd[OF l] obtain r where r: "sep \<notin> set a" "s = a @ sep # r" "py_split sep r = [b, c]"
    by auto
  with split_two_iff[of sep r b c]
  show "s = a @ sep # b @ sep # c \<and> sep \<notin> set a \<and> sep \<notin> set b \<and> sep \<notin> set c" by simp
next
  assume "s = a @ sep # b @ sep # c \<and> sep \<notin> set a \<and> sep \<notin> set b \<and> sep \<notin> set c"
  then show "py_split sep s = [a, b, c]" by (simp add: split_at_sep split_no_sep)
qed

lemma parse_succeeds_iff:
  "(\<exists>r. parse_timestamp self t = Inr r) \<longleftrightarrow>
     (\<exists>a b. py_split CHR '':'' (py_strip t) = [a, b] \<and> py_int a \<noteq> None \<and> py_int b \<noteq> None)
     \<or> (\<exists>a b c. py_split CHR '':'' (py_strip t) = [a, b, c]
            \<and> py_int a \<noteq> None \<and> py_int b \<noteq> None \<and> py_int c \<noteq> None)"
proof -
  let ?parts = "py_split CHR '':'' (py_strip t)"
  consider "?parts = []" | p0 where "?parts = [p0]" | p0 p1 where "?parts = [p0, p1]"
    | p0 p1 p2 where "?parts = [p0, p1, p2]"
    | p0 p1 p2 p3 ps where "?parts = p0 # p1 # p2 # p3 # ps"
    by (metis list.exhaust)
  then show ?thesis
  proof cases
    case 1 then show ?thesis by (simp add: parse_timestamp_def)
  next
    case 2 then show ?thesis by (simp add: parse_timestamp_def)
  next
    case 3 then show ?thesis
      using int_of_cases[of p0] int_of_cases[of p1]
      by (auto simp: parse_timestamp_def)
  next
    case 4 then show ?thesis
      using int_of_cases[of p0] int_of_cases[of p1] int_of_cases[of p2]
      by (auto simp: parse_timestamp_def)
  next
    case 5 then show ?thesis by (simp add: parse_timestamp_def)
  qed
qed

lemma parse_fails_not_succeeds:
  "(\<exists>e. parse_timestamp self t = Inl e) \<longleftrightarrow> \<not> (\<exists>r. parse_timestamp self t = Inr r)"
  by (cases "parse_timestamp self t") auto

text \<open>
  C5. \<^verbatim>\<open>parse_timestamp\<close> first trims the token: what it works on is the token without the
  whitespace at its two ends. It fails, always with a \<^verbatim>\<open>ValueError\<close>, exactly when the
  trimmed token is neither two nor three colon-free groups joined by colons of which each
  has the shape that \<^verbatim>\<open>int\<close> accepts. The empty token, \<^verbatim>\<open>abc\<close> and \<^verbatim>\<open>1:2:3:4\<close> fail with the
  error for a wrong format.
\<close>

theorem parse_fails_iff:
  "(\<exists>pre post. t = pre @ py_strip t @ post \<and> list_all is_space pre \<and> list_all is_space post)
   \<and> (py_strip t = [] \<or> (\<not> is_space (hd (py_strip t)) \<and> \<not> is_space (last (py_strip t))))
   \<and> ((\<exists>e. parse_timestamp self t = Inl e) \<longleftrightarrow>
         \<not> (\<exists>a b. py_strip t = a @ '':'' @ b \<and> CHR '':'' \<notin> set a \<and> CHR '':'' \<notin> set b
                 \<and> int_literal a \<and> int_literal b)
       \<and> \<not> (\<exists>a b c. py_strip t = a @ '':'' @ b @ '':'' @ c
                 \<and> CHR '':'' \<notin> set a \<and> CHR '':'' \<notin> set b \<and> CHR '':'' \<notin> set c
                 \<and> int_literal a \<and> int_literal b \<and> int_literal c))
   \<and> parse_timestamp self '''' = Inl (InvalidFormat '''')
   \<and> parse_timestamp self ''abc'' = Inl (InvalidFormat ''abc'')
   \<and> parse_timestamp self ''1:2:3:4'' = Inl (InvalidFormat ''1:2:3:4'')"
proof (intro conjI)
  show "\<exists>pre post. t = pre @ py_strip t @ post \<and> list_all is_space pre \<and> list_all is_space post"
    unfolding py_strip_def by (rule strip_expr_decomp)
  show "py_strip t = [] \<or> (\<not> is_space (hd (py_strip t)) \<and> \<not> is_space (last (py_strip t)))"
    using strip_expr_ends[of is_space t "py_strip t"] unfolding py_strip_def by blast
  show "parse_timestamp self '''' = Inl (InvalidFormat '''')" by code_simp
  show "parse_timestamp self ''abc'' = Inl (InvalidFormat ''abc'')" by code_simp
  show "parse_timestamp self ''1:2:3:4'' = Inl (InvalidFormat ''1:2:3:4'')" by code_simp
  show "(\<exists>e. parse_timestamp self t = Inl e) \<longleftrightarrow>
         \<not> (\<exists>a b. py_strip t = a @ '':'' @ b \<and> CHR '':'' \<notin> set a \<and> CHR '':'' \<notin> set b
                 \<and> int_literal a \<and> int_literal b)
       \<and> \<not> (\<exists>a b c. py_strip t = a @ '':'' @ b @ '':'' @ c
                 \<and> CHR '':'' \<notin> set a \<and> CHR '':'' \<notin> set b \<and> CHR '':'' \<notin> set c
                 \<and> int_literal a \<and> int_literal b \<and> int_literal c)"
    unfolding parse_fails_not_succeeds parse_succeeds_iff split_two_iff split_three_iff
      py_int_None_iff
    by auto
qed

theorem parse_fails_iff_witness:
  "parse_timestamp init (CHR '' '' # CHR ''1'' # CHR 0x1F # '':09 '')
     = Inl (InvalidLiteral [CHR ''1'', CHR 0x1F])
   \<and> py_strip (CHR '' '' # CHR ''1'' # CHR 0x1F # '':09 '') = [CHR ''1'', CHR 0x1F] @ '':'' @ ''09''
   \<and> \<not> (int_literal [CHR ''1'', CHR 0x1F] \<and> int_literal ''09'')"
proof -
  let ?t = "CHR '' '' # CHR ''1'' # CHR 0x1F # '':09 ''"
  have fails: "parse_timestamp init ?t = Inl (InvalidLiteral [CHR ''1'', CHR 0x1F])"
    by code_simp
  have strip: "py_strip ?t = [CHR ''1'', CHR 0x1F] @ '':'' @ ''09''"
    by code_simp
  have nc: "CHR '':'' \<notin> set [CHR ''1'', CHR 0x1F]" "CHR '':'' \<notin> set ''09''"
    by simp_all
  from parse_fails_iff[of ?t init] fails
  have "\<not> (\<exists>a b. py_strip ?t = a @ '':'' @ b \<and> CHR '':'' \<notin> set a \<and> CHR '':'' \<notin> set b
                 \<and> int_literal a \<and> int_literal b)"
    by blast
  with strip nc have "\<not> (int_literal [CHR ''1'', CHR 0x1F] \<and> int_literal ''09'')"
    by blast
  with fails strip show ?thesis by blast
qed

subsection \<open>The CUE sheet\<close>












end
